theory Spec2Isabelle
  imports Main
begin

section \<open>Data model of groups/reconcile.go\<close>

text \<open>
  \<^verbatim>\<open>GoogleGroup\<close> is the struct of the source. Go's \<^verbatim>\<open>map[string]string\<close> is a
  partial map; reading a missing key gives the empty string (see \<open>setting\<close> below).
\<close>

record GoogleGroup =
  EmailId :: string
  Name :: string
  Description :: string
  Settings :: "string \<rightharpoonup> string"
  Owners :: "string list"
  Managers :: "string list"
  Members :: "string list"

record GroupsConfig =
  Groups :: "GoogleGroup list"

definition setting :: "GoogleGroup \<Rightarrow> string \<Rightarrow> string" where
  \<comment> \<open>\<^verbatim>\<open>g.Settings[k]\<close>: the zero value \<^verbatim>\<open>""\<close> when the key is absent.\<close>
  "setting g k = (case Settings g k of None \<Rightarrow> [] | Some v \<Rightarrow> v)"

subsection \<open>Compiled regular expressions\<close>

text \<open>
  \<^verbatim>\<open>*regexp.Regexp\<close> belongs to the Go standard library. A compiled expression is modelled
  by its syntax tree, with the operator names of \<^verbatim>\<open>regexp/syntax\<close>, for the operators
  below. \<open>ends re s i\<close> lists the positions at which a match of \<open>re\<close> that starts at
  position \<open>i\<close> of \<open>s\<close> can end. \<^verbatim>\<open>MatchString\<close> reports whether the string contains any
  match, so it searches every start position.
\<close>

datatype Regexp =
    OpNoMatch
  | OpEmptyMatch
  | OpLiteral string
  | OpAnyCharNotNL
  | OpAnyChar
  | OpBeginText
  | OpEndText
  | OpConcat Regexp Regexp
  | OpAlternate Regexp Regexp
  | OpStar Regexp

primrec closure :: "nat \<Rightarrow> (nat \<Rightarrow> nat list) \<Rightarrow> nat list \<Rightarrow> nat list" where
  "closure 0 f ps = ps"
| "closure (Suc n) f ps = closure n f (remdups (ps @ concat (map f ps)))"

primrec ends :: "Regexp \<Rightarrow> string \<Rightarrow> nat \<Rightarrow> nat list" where
  "ends OpNoMatch s = (\<lambda>i. [])"
| "ends OpEmptyMatch s = (\<lambda>i. [i])"
| "ends (OpLiteral l) s =
     (\<lambda>i. if i + length l \<le> length s \<and> take (length l) (drop i s) = l
          then [i + length l] else [])"
| "ends OpAnyCharNotNL s = (\<lambda>i. if i < length s \<and> s ! i \<noteq> CHR 0x0A then [Suc i] else [])"
| "ends OpAnyChar s = (\<lambda>i. if i < length s then [Suc i] else [])"
| "ends OpBeginText s = (\<lambda>i. if i = 0 then [i] else [])"
| "ends OpEndText s = (\<lambda>i. if i = length s then [i] else [])"
| "ends (OpConcat a b) s = (\<lambda>i. concat (map (ends b s) (ends a s i)))"
| "ends (OpAlternate a b) s = (\<lambda>i. ends a s i @ ends b s i)"
| "ends (OpStar a) s = (\<lambda>i. closure (length s) (ends a s) [i])"

definition MatchString :: "Regexp \<Rightarrow> string \<Rightarrow> bool" where
  "MatchString re s = list_ex (\<lambda>i. ends re s i \<noteq> []) [0..<Suc (length s)]"

subsection \<open>Restrictions\<close>

record Restriction =
  Path :: string
  AllowedGroups :: "string list"
  AllowedGroupsRe :: "Regexp list"

record RestrictionsConfig =
  Restrictions :: "Restriction list"

definition emptyRegexp :: Regexp where
  \<comment> \<open>\<^verbatim>\<open>regexp.MustCompile("")\<close>: the empty pattern parses to the empty match.\<close>
  "emptyRegexp = OpEmptyMatch"

definition defaultRestriction :: Restriction where
  \<comment> \<open>\<^verbatim>\<open>AllowedGroups\<close> is not set in the literal: the nil slice.\<close>
  "defaultRestriction =
     \<lparr>Path = ''*'', AllowedGroups = [], AllowedGroupsRe = [emptyRegexp]\<rparr>"

subsection \<open>Errors\<close>

text \<open>
  One constructor for each error the modelled functions construct or pass on.
  \<open>RemoteError\<close> stands for an error returned by the directory or settings service,
  \<open>WalkError\<close> for one that the directory walk hands to its callback, and
  \<open>ErrBadPattern\<close> is the error of the glob library for a malformed pattern and
  \<open>RegexpSyntaxError\<close> the one of \<^verbatim>\<open>regexp.Compile\<close>.
\<close>

datatype error =
    GroupHasNoEmailId GoogleGroup
  | GroupsMustHaveEmailId
  | CannotDefineGroup string string
  | CannotOverwrite string
  | CouldntMerge error
  | ErrorReadingGroups string
  | ErrorParsingGroups string
  | WalkError string
  | RemoteError string
  | ErrBadPattern
  | ErrorReadingRestrictions string
  | ErrorParsingRestrictions string
  | ErrorParsingGroupPattern string string error
  | RegexpSyntaxError string

text \<open>What \<^verbatim>\<open>ioutil.ReadFile\<close> followed by \<^verbatim>\<open>yaml.Unmarshal\<close> gives for a file.\<close>

datatype 'a file_contents = Unreadable | Malformed | Parsed 'a

section \<open>Loading the restrictions\<close>

text \<open>
  \<^verbatim>\<open>regexp.Compile\<close> is a parameter: the parser of the pattern syntax is outside the
  repository. The two loops of \<^verbatim>\<open>RestrictionsConfig.Load\<close> compile the patterns of each
  restriction in turn and stop at the first pattern that does not compile; the receiver is
  then left as it was parsed. What a failed read or parse leaves in the receiver is not
  modelled: the model returns it unchanged.
\<close>

type_synonym compiler = "string \<Rightarrow> error + Regexp"

fun compilePatterns :: "compiler \<Rightarrow> string \<Rightarrow> string list \<Rightarrow> Regexp list \<Rightarrow> error + Regexp list" where
  "compilePatterns Compile path [] res = Inr res"
| "compilePatterns Compile path (g # gs) res =
     (case Compile g of
        Inl err \<Rightarrow> Inl (ErrorParsingGroupPattern g path err)
      | Inr re \<Rightarrow> compilePatterns Compile path gs (res @ [re]))"

fun compileRestrictions :: "compiler \<Rightarrow> Restriction list \<Rightarrow> Restriction list \<Rightarrow> error + Restriction list" where
  "compileRestrictions Compile [] ret = Inr ret"
| "compileRestrictions Compile (r # rs) ret =
     (case compilePatterns Compile (Path r) (AllowedGroups r) [] of
        Inl err \<Rightarrow> Inl err
      | Inr res \<Rightarrow> compileRestrictions Compile rs (ret @ [r\<lparr>AllowedGroupsRe := res\<rparr>]))"

definition RestrictionsConfig_Load ::
  "compiler \<Rightarrow> string \<Rightarrow> RestrictionsConfig file_contents \<Rightarrow> RestrictionsConfig
     \<Rightarrow> error option \<times> RestrictionsConfig" where
  "RestrictionsConfig_Load Compile path file rc =
     (case file of
        Unreadable \<Rightarrow> (Some (ErrorReadingRestrictions path), rc)
      | Malformed \<Rightarrow> (Some (ErrorParsingRestrictions path), rc)
      | Parsed rc' \<Rightarrow>
          (case compileRestrictions Compile (Restrictions rc') [] of
             Inl err \<Rightarrow> (Some err, rc')
           | Inr ret \<Rightarrow> (None, rc'\<lparr>Restrictions := ret\<rparr>)))"

section \<open>Merging group lists\<close>

fun matchesRegexList :: "string \<Rightarrow> Regexp list \<Rightarrow> bool" where
  "matchesRegexList s [] = False"
| "matchesRegexList s (r # list) = (if MatchString r s then True else matchesRegexList s list)"

text \<open>The first loop of \<^verbatim>\<open>mergeGroups\<close>: the set of the e-mail ids of \<open>a\<close>, as a Go map
  to the empty struct.\<close>

fun collectEmails :: "GoogleGroup list \<Rightarrow> (string \<rightharpoonup> unit) \<Rightarrow> (string \<rightharpoonup> unit)" where
  "collectEmails [] emails = emails"
| "collectEmails (v # a) emails = collectEmails a (emails(EmailId v \<mapsto> ()))"

text \<open>The second loop: the three checks on each group of \<open>b\<close>, in the source's order.
  The map \<open>emails\<close> is only read here.\<close>

fun checkGroups :: "GoogleGroup list \<Rightarrow> Restriction \<Rightarrow> (string \<rightharpoonup> unit) \<Rightarrow> error option" where
  "checkGroups [] r emails = None"
| "checkGroups (v # b) r emails =
     (if EmailId v = [] then Some GroupsMustHaveEmailId
      else if \<not> matchesRegexList (EmailId v) (AllowedGroupsRe r)
        then Some (CannotDefineGroup (EmailId v) (Path r))
      else if emails (EmailId v) \<noteq> None then Some (CannotOverwrite (EmailId v))
      else checkGroups b r emails)"

definition mergeGroups ::
  "GoogleGroup list \<Rightarrow> GoogleGroup list \<Rightarrow> Restriction \<Rightarrow> error + GoogleGroup list" where
  "mergeGroups a b r =
     (let emails = collectEmails a Map.empty
      in case checkGroups b r emails of
           Some err \<Rightarrow> Inl err
         | None \<Rightarrow> Inr (a @ b))"

section \<open>Choosing the restriction of a path\<close>

text \<open>
  The string functions of the Go standard library that the source calls, on byte strings.
  \<^verbatim>\<open>filepath.Separator\<close> is the slash of a Unix build. \<^verbatim>\<open>strings.Trim\<close> is called with
  the one-byte cutset made of the separator; the model takes the cutset as a list of bytes.
\<close>

definition Separator :: char where
  "Separator = CHR ''/''"

definition HasPrefix :: "string \<Rightarrow> string \<Rightarrow> bool" where
  "HasPrefix s pre = (length pre \<le> length s \<and> take (length pre) s = pre)"

definition TrimPrefix :: "string \<Rightarrow> string \<Rightarrow> string" where
  "TrimPrefix s pre = (if HasPrefix s pre then drop (length pre) s else s)"

definition Trim :: "string \<Rightarrow> string \<Rightarrow> string" where
  "Trim s cutset =
     rev (dropWhile (\<lambda>c. c \<in> set cutset) (rev (dropWhile (\<lambda>c. c \<in> set cutset) s)))"

definition Base :: "string \<Rightarrow> string" where
  \<comment> \<open>\<^verbatim>\<open>filepath.Base\<close>: the last element of the path, trailing separators removed first.\<close>
  "Base path =
     (if path = [] then ''.''
      else let stripped = rev (dropWhile (\<lambda>c. c = Separator) (rev path));
               elem = rev (takeWhile (\<lambda>c. c \<noteq> Separator) (rev stripped))
           in if elem = [] then [Separator] else elem)"

text \<open>
  \<^verbatim>\<open>doublestar.Match(pattern, name)\<close> belongs to a library outside the repository. It is
  a parameter of the model: a function that returns Go's pair of the match flag and the
  error, \<open>None\<close> for \<^verbatim>\<open>nil\<close>.
\<close>

type_synonym matcher = "string \<Rightarrow> string \<Rightarrow> bool \<times> error option"

definition cleanPath :: "string \<Rightarrow> string \<Rightarrow> string" where
  \<comment> \<open>\<^verbatim>\<open>strings.Trim(strings.TrimPrefix(path, rootDir), string(filepath.Separator))\<close>\<close>
  "cleanPath path rootDir = Trim (TrimPrefix path rootDir) [Separator]"

text \<open>The loop of \<^verbatim>\<open>GetRestrictionForPath\<close> over \<^verbatim>\<open>rc.Restrictions\<close>.\<close>

fun firstRestriction :: "matcher \<Rightarrow> Restriction list \<Rightarrow> string \<Rightarrow> Restriction" where
  "firstRestriction Match [] cp = defaultRestriction"
| "firstRestriction Match (r # rs) cp =
     (case Match (Path r) cp of
        (match, err) \<Rightarrow> if err = None \<and> match then r else firstRestriction Match rs cp)"

definition patternMatches :: "matcher \<Rightarrow> string \<Rightarrow> Restriction \<Rightarrow> bool" where
  \<comment> \<open>The glob pattern of \<open>r\<close> matches the path: a match reported without an error.\<close>
  "patternMatches Match cp r = (snd (Match (Path r) cp) = None \<and> fst (Match (Path r) cp))"

definition GetRestrictionForPath ::
  "matcher \<Rightarrow> RestrictionsConfig \<Rightarrow> string \<Rightarrow> string \<Rightarrow> Restriction" where
  "GetRestrictionForPath Match rc path rootDir =
     firstRestriction Match (Restrictions rc) (cleanPath path rootDir)"

section \<open>Loading the group files\<close>

text \<open>
  \<^verbatim>\<open>GroupsConfig.Load\<close> walks the directory tree and runs its callback on every entry.
  The file system is outside the program: a walk is modelled by the list of the callback's
  invocations, each with the path, the error the walk passes in, and what reading and
  parsing the file at that path gives. The receiver \<^verbatim>\<open>gc\<close> is passed explicitly and
  returned together with the error, so that its value after a failure is visible.
\<close>

record visit =
  v_path :: string
  v_err :: "error option"
  v_file :: "GroupsConfig file_contents"

definition walkFn ::
  "matcher \<Rightarrow> string \<Rightarrow> RestrictionsConfig \<Rightarrow> visit \<Rightarrow> GroupsConfig
     \<Rightarrow> error option \<times> GroupsConfig" where
  "walkFn Match rootDir restrictions v gc =
     (case v_err v of
        Some err \<Rightarrow> (Some err, gc)
      | None \<Rightarrow>
          if Base (v_path v) = ''groups.yaml'' then
            (case v_file v of
               Unreadable \<Rightarrow> (Some (ErrorReadingGroups (v_path v)), gc)
             | Malformed \<Rightarrow> (Some (ErrorParsingGroups (v_path v)), gc)
             | Parsed groupsConfigAtPath \<Rightarrow>
                 (let r = GetRestrictionForPath Match restrictions (v_path v) rootDir
                  in case mergeGroups (Groups gc) (Groups groupsConfigAtPath) r of
                       Inl err \<Rightarrow> (Some (CouldntMerge err), gc)
                     | Inr mergedGroups \<Rightarrow> (None, gc\<lparr>Groups := mergedGroups\<rparr>)))
          else (None, gc))"

text \<open>The walk stops at the first error its callback returns.\<close>

fun Load ::
  "matcher \<Rightarrow> string \<Rightarrow> RestrictionsConfig \<Rightarrow> visit list \<Rightarrow> GroupsConfig
     \<Rightarrow> error option \<times> GroupsConfig" where
  "Load Match rootDir restrictions [] gc = (None, gc)"
| "Load Match rootDir restrictions (v # vs) gc =
     (case walkFn Match rootDir restrictions v gc of
        (Some err, gc') \<Rightarrow> (Some err, gc')
      | (None, gc') \<Rightarrow> Load Match rootDir restrictions vs gc')"

section \<open>Reconciling\<close>

definition ownerRole :: string where "ownerRole = ''OWNER''"
definition managerRole :: string where "managerRole = ''MANAGER''"
definition memberRole :: string where "memberRole = ''MEMBER''"

text \<open>
  The reconciler talks to two services through interfaces that are declared outside
  this file. A \<open>call\<close> is one method of \<^verbatim>\<open>AdminService\<close> or \<^verbatim>\<open>GroupService\<close> with its
  arguments (the two \<^verbatim>\<open>SetGroup\<close> methods are told apart by a prefix). The services are a
  parameter: a function from the call and the remote state to the returned error
  (\<open>None\<close> for \<^verbatim>\<open>nil\<close>) and the new remote state. The \<open>world\<close> threads the remote state,
  the calls made so far with what each returned, and the lines written by
  \<^verbatim>\<open>log.Println\<close>.
\<close>

datatype call =
    AdminSetGroup GoogleGroup
  | GroupSetGroup GoogleGroup
  | CreateOrUpdateGroupIfNescessary
  | UpdateGroupSettings
  | AddOrUpdateGroupMembers string "string list"
  | RemoveMembersFromGroup "string list"
  | RemoveOwnerOrManagersFromGroup "string list"
  | DeleteGroupsIfNecessary

type_synonym 's services = "call \<Rightarrow> 's \<Rightarrow> error option \<times> 's"

record 's world =
  remote :: 's
  calls :: "(call \<times> error option) list"
  logged :: "error list"

definition invoke :: "'s services \<Rightarrow> call \<Rightarrow> 's world \<Rightarrow> error option \<times> 's world" where
  "invoke svc c w =
     (case svc c (remote w) of
        (err, s') \<Rightarrow> (err, w\<lparr>remote := s', calls := calls w @ [(c, err)]\<rparr>))"

definition SetGroup :: "'s services \<Rightarrow> call \<Rightarrow> 's world \<Rightarrow> 's world" where
  \<comment> \<open>\<^verbatim>\<open>SetGroup\<close> returns no value: only the new remote state is kept.\<close>
  "SetGroup svc c w =
     w\<lparr>remote := snd (svc c (remote w)), calls := calls w @ [(c, None)]\<rparr>"

definition Println :: "error \<Rightarrow> 's world \<Rightarrow> 's world" where
  "Println err w = w\<lparr>logged := logged w @ [err]\<rparr>"

definition andThen ::
  "('w \<Rightarrow> error option \<times> 'w) \<Rightarrow> ('w \<Rightarrow> error option \<times> 'w) \<Rightarrow> 'w \<Rightarrow> error option \<times> 'w" where
  \<comment> \<open>\<^verbatim>\<open>err := f(); if err != nil { return err }\<close>, then the rest.\<close>
  "andThen f rest w =
     (case f w of (Some err, w') \<Rightarrow> (Some err, w') | (None, w') \<Rightarrow> rest w')"

definition addMembers :: "'s services \<Rightarrow> GoogleGroup \<Rightarrow> 's world \<Rightarrow> error option \<times> 's world" where
  \<comment> \<open>The call for the plain members: its error is printed and not returned.\<close>
  "addMembers svc g w =
     (case invoke svc (AddOrUpdateGroupMembers memberRole (Members g)) w of
        (Some err, w') \<Rightarrow> (None, Println err w')
      | (None, w') \<Rightarrow> (None, w'))"

definition removeMembers :: "'s services \<Rightarrow> GoogleGroup \<Rightarrow> 's world \<Rightarrow> error option \<times> 's world" where
  "removeMembers svc g w =
     (if setting g ''ReconcileMembers'' = ''true'' then
        (let members = Owners g @ Managers g;
             members = members @ Members g
         in invoke svc (RemoveMembersFromGroup members) w)
      else
        (let members = Owners g @ Managers g
         in invoke svc (RemoveOwnerOrManagersFromGroup members) w))"

text \<open>The body of the loop of \<^verbatim>\<open>reconcileGroups\<close>, for one group.\<close>

definition reconcileGroup :: "'s services \<Rightarrow> GoogleGroup \<Rightarrow> 's world \<Rightarrow> error option \<times> 's world" where
  "reconcileGroup svc g w =
     (if EmailId g = [] then (Some (GroupHasNoEmailId g), w)
      else
        (andThen (invoke svc CreateOrUpdateGroupIfNescessary)
        (andThen (invoke svc UpdateGroupSettings)
        (andThen (invoke svc (AddOrUpdateGroupMembers ownerRole (Owners g)))
        (andThen (invoke svc (AddOrUpdateGroupMembers managerRole (Managers g)))
        (andThen (addMembers svc g)
                 (removeMembers svc g))))))
          (SetGroup svc (GroupSetGroup g) (SetGroup svc (AdminSetGroup g) w)))"

fun reconcileLoop :: "'s services \<Rightarrow> GoogleGroup list \<Rightarrow> 's world \<Rightarrow> error option \<times> 's world" where
  "reconcileLoop svc [] w = (None, w)"
| "reconcileLoop svc (g # groups) w =
     (case reconcileGroup svc g w of
        (Some err, w') \<Rightarrow> (Some err, w')
      | (None, w') \<Rightarrow> reconcileLoop svc groups w')"

definition reconcileGroups :: "'s services \<Rightarrow> GoogleGroup list \<Rightarrow> 's world \<Rightarrow> error option \<times> 's world" where
  "reconcileGroups svc groups w =
     andThen (reconcileLoop svc groups) (invoke svc DeleteGroupsIfNecessary) w"

section \<open>Call traces\<close>

text \<open>
  Predicates on the calls that a run has made. \<open>removalCall g\<close> is the removal step the
  settings of \<open>g\<close> ask for and \<open>callsFor g\<close> the full sequence of calls for one group.
  \<open>handled res lg t\<close> reads a trace from the front: a failed call for the plain members
  has its error among the printed lines \<open>lg\<close> and is directly followed by a removal
  call; any other failed call is the last call, and its error is the result \<open>res\<close>.
\<close>

definition isPlainMemberAdd :: "call \<Rightarrow> bool" where
  "isPlainMemberAdd c =
     (case c of AddOrUpdateGroupMembers role members \<Rightarrow> role = memberRole | _ \<Rightarrow> False)"

definition isRemoval :: "call \<Rightarrow> bool" where
  "isRemoval c =
     (case c of RemoveMembersFromGroup members \<Rightarrow> True
      | RemoveOwnerOrManagersFromGroup members \<Rightarrow> True
      | _ \<Rightarrow> False)"

definition removalCall :: "GoogleGroup \<Rightarrow> call" where
  "removalCall g =
     (if setting g ''ReconcileMembers'' = ''true''
      then RemoveMembersFromGroup (Owners g @ Managers g @ Members g)
      else RemoveOwnerOrManagersFromGroup (Owners g @ Managers g))"

definition callsFor :: "GoogleGroup \<Rightarrow> call list" where
  "callsFor g =
     [AdminSetGroup g, GroupSetGroup g, CreateOrUpdateGroupIfNescessary, UpdateGroupSettings,
      AddOrUpdateGroupMembers ownerRole (Owners g),
      AddOrUpdateGroupMembers managerRole (Managers g),
      AddOrUpdateGroupMembers memberRole (Members g),
      removalCall g]"

fun handled :: "error option \<Rightarrow> error list \<Rightarrow> (call \<times> error option) list \<Rightarrow> bool" where
  "handled res lg [] = True"
| "handled res lg ((c, None) # t) = handled res lg t"
| "handled res lg ((c, Some e) # t) =
     (if isPlainMemberAdd c
      then e \<in> set lg \<and> (case t of [] \<Rightarrow> False | (c', r) # t' \<Rightarrow> isRemoval c') \<and> handled res lg t
      else t = [] \<and> res = Some e)"

text \<open>
  \<open>emits f Q\<close>: whatever \<open>f\<close> returns, it only appends to the trace and to the log,
  and the result, the appended calls and the appended lines satisfy \<open>Q\<close>.
\<close>

definition emits ::
  "('s world \<Rightarrow> error option \<times> 's world)
     \<Rightarrow> (error option \<Rightarrow> (call \<times> error option) list \<Rightarrow> error list \<Rightarrow> bool) \<Rightarrow> bool" where
  "emits f Q =
     (\<forall>w res w'. f w = (res, w') \<longrightarrow>
        (\<exists>t lg. calls w' = calls w @ t \<and> logged w' = logged w @ lg \<and> Q res t lg))"

definition orderly ::
  "(error \<Rightarrow> bool) \<Rightarrow> call list \<Rightarrow> error option \<Rightarrow> (call \<times> error option) list \<Rightarrow> error list
     \<Rightarrow> bool" where
  "orderly X plan res t lg =
     (handled res lg t
      \<and> (res = None \<longrightarrow> map fst t = plan)
      \<and> (\<forall>e. res = Some e \<longrightarrow>
            (\<exists>c. t \<noteq> [] \<and> last t = (c, Some e) \<and> \<not> isPlainMemberAdd c) \<or> X e))"

definition untouched :: "GoogleGroup \<Rightarrow> (call \<times> error option) list \<Rightarrow> bool" where
  "untouched g t =
     (\<forall>c \<in> fst ` set t. \<not> isRemoval c \<and> c \<noteq> AddOrUpdateGroupMembers memberRole (Members g))"

definition removalAsConfigured :: "GoogleGroup \<Rightarrow> (call \<times> error option) list \<Rightarrow> bool" where
  "removalAsConfigured g t =
     ((\<forall>c \<in> fst ` set t. isRemoval c \<longrightarrow> c = removalCall g)
      \<and> (AddOrUpdateGroupMembers memberRole (Members g) \<in> fst ` set t \<longrightarrow>
           t \<noteq> [] \<and> fst (last t) = removalCall g))"

section \<open>Example data\<close>

definition groupNamed :: "string \<Rightarrow> GoogleGroup" where
  "groupNamed email =
     \<lparr>EmailId = email, Name = [], Description = [], Settings = Map.empty,
      Owners = [], Managers = [], Members = []\<rparr>"

definition teamRestriction :: Restriction where
  \<comment> \<open>\<^verbatim>\<open>{path: "team/groups.yaml", allowedGroups: ["^team-.*"]}\<close>, compiled.\<close>
  "teamRestriction =
     \<lparr>Path = ''team/groups.yaml'', AllowedGroups = [''^team-.*''],
      AllowedGroupsRe =
        [OpConcat OpBeginText (OpConcat (OpLiteral ''team-'') (OpStar OpAnyCharNotNL))]\<rparr>"

text \<open>
  A stand-in for the glob library on the three kinds of pattern that the examples use: the
  malformed pattern \<^verbatim>\<open>[\<close>, the pattern \<^verbatim>\<open>**\<close>, which matches every path, and a
  pattern without metacharacters, which matches itself only.
\<close>

definition exampleMatch :: matcher where
  "exampleMatch pattern name =
     (if pattern = ''['' then (False, Some ErrBadPattern)
      else if pattern = ''**'' then (True, None)
      else (pattern = name, None))"

definition anyRestriction :: Restriction where
  \<comment> \<open>\<^verbatim>\<open>{path: "**", allowedGroups: [".*"]}\<close>, compiled.\<close>
  "anyRestriction =
     \<lparr>Path = ''**'', AllowedGroups = [''.*''], AllowedGroupsRe = [OpStar OpAnyCharNotNL]\<rparr>"

definition badRestriction :: Restriction where
  \<comment> \<open>\<^verbatim>\<open>{path: "[", allowedGroups: []}\<close>: a glob pattern that does not parse.\<close>
  "badRestriction = \<lparr>Path = ''['', AllowedGroups = [], AllowedGroupsRe = []\<rparr>"

definition groupsFile :: "string \<Rightarrow> GoogleGroup list \<Rightarrow> visit" where
  "groupsFile path gs = \<lparr>v_path = path, v_err = None, v_file = Parsed \<lparr>Groups = gs\<rparr>\<rparr>"

definition syncedGroup :: GoogleGroup where
  "syncedGroup =
     \<lparr>EmailId = ''team-a@x.com'', Name = ''a'', Description = [],
      Settings = [''ReconcileMembers'' \<mapsto> ''true''],
      Owners = [''o@x.com''], Managers = [''m@x.com''], Members = [''p@x.com'']\<rparr>"

text \<open>
  Services without remote state: one that always succeeds, one that fails every update of
  plain members, and one that fails every update of the settings.
\<close>

definition okService :: "unit services" where
  "okService c s = (None, s)"

definition failingMembers :: "unit services" where
  "failingMembers c s =
     (case c of
        AddOrUpdateGroupMembers role members \<Rightarrow>
          (if role = memberRole then Some (RemoteError ''no such member'') else None, s)
      | _ \<Rightarrow> (None, s))"

definition failingSettings :: "unit services" where
  "failingSettings c s =
     (case c of UpdateGroupSettings \<Rightarrow> (Some (RemoteError ''forbidden''), s) | _ \<Rightarrow> (None, s))"

definition startWorld :: "unit world" where
  "startWorld = \<lparr>remote = (), calls = [], logged = []\<rparr>"

section \<open>Properties of the merge\<close>

lemma collectEmails_dom: "dom (collectEmails a emails) = dom emails \<union> EmailId ` set a"
  by (induction a arbitrary: emails) auto

lemma collectEmails_None:
  "collectEmails a Map.empty x = None \<longleftrightarrow> x \<notin> EmailId ` set a"
proof -
  have "collectEmails a Map.empty x = None \<longleftrightarrow> x \<notin> dom (collectEmails a Map.empty)"
    by (simp only: dom_def mem_Collect_eq not_not)
  then show ?thesis by (simp add: collectEmails_dom)
qed

lemma matchesRegexList_iff: "matchesRegexList s list \<longleftrightarrow> (\<exists>re \<in> set list. MatchString re s)"
  by (induction list) auto

lemma checkGroups_None_iff:
  "checkGroups b r emails = None \<longleftrightarrow>
     (\<forall>g \<in> set b. EmailId g \<noteq> [] \<and> matchesRegexList (EmailId g) (AllowedGroupsRe r)
        \<and> emails (EmailId g) = None)"
  by (induction b) (auto simp: domIff [symmetric] simp del: not_None_eq)

lemma mergeGroups_Inr_iff:
  "mergeGroups a b r = Inr res \<longleftrightarrow>
     checkGroups b r (collectEmails a Map.empty) = None \<and> res = a @ b"
  by (auto simp: mergeGroups_def split: option.splits)

lemma mergeGroups_Inl_iff:
  "mergeGroups a b r = Inl e \<longleftrightarrow> checkGroups b r (collectEmails a Map.empty) = Some e"
  by (auto simp: mergeGroups_def split: option.splits)

lemma checkGroups_duplicate:
  assumes "\<forall>g \<in> set b. EmailId g \<noteq> [] \<and> matchesRegexList (EmailId g) (AllowedGroupsRe r)"
    and "\<exists>g \<in> set b. emails (EmailId g) \<noteq> None"
  shows "\<exists>g \<in> set b. emails (EmailId g) \<noteq> None
           \<and> checkGroups b r emails = Some (CannotOverwrite (EmailId g))"
  using assms by (induction b) auto

subsection \<open>Matching\<close>

lemma closure_superset: "set ps \<subseteq> set (closure n f ps)"
proof (induction n arbitrary: ps)
  case 0
  show ?case by simp
next
  case (Suc n)
  have "set ps \<subseteq> set (remdups (ps @ concat (map f ps)))" by auto
  also have "\<dots> \<subseteq> set (closure n f (remdups (ps @ concat (map f ps))))" by (rule Suc.IH)
  finally show ?case by simp
qed

lemma closure_nonempty: "ps \<noteq> [] \<Longrightarrow> closure n f ps \<noteq> []"
  using closure_superset [of ps n f] by (cases ps) auto

lemma MatchString_at_start: "ends re s 0 \<noteq> [] \<Longrightarrow> MatchString re s"
  unfolding MatchString_def list_ex_iff by (rule bexI [of _ 0]) simp_all

lemma MatchString_emptyRegexp: "MatchString emptyRegexp s"
  by (rule MatchString_at_start) (simp add: emptyRegexp_def)

lemma MatchString_literal_prefix:
  "HasPrefix s l \<Longrightarrow> MatchString (OpConcat OpBeginText (OpConcat (OpLiteral l) (OpStar a))) s"
  by (rule MatchString_at_start) (simp add: HasPrefix_def closure_nonempty)

lemma MatchString_team: "MatchString (hd (AllowedGroupsRe teamRestriction)) ''team-b@x.com''"
  by (simp add: teamRestriction_def MatchString_literal_prefix HasPrefix_def)

lemma checkGroups_default:
  "checkGroups b defaultRestriction emails = Some e \<Longrightarrow>
     e = GroupsMustHaveEmailId \<or> (\<exists>g \<in> set b. e = CannotOverwrite (EmailId g))"
  by (induction b) (auto simp: defaultRestriction_def MatchString_emptyRegexp split: if_splits)

text \<open>
  C7. Merging an empty fragment succeeds and returns the accumulated list unchanged,
  for every accumulated list and every restriction.
\<close>

theorem mergeGroups_empty_fragment: "mergeGroups a [] r = Inr a"
  by (simp add: mergeGroups_def)

theorem mergeGroups_empty_fragment_witness:
  "mergeGroups [groupNamed ''a@x.com''] [] teamRestriction = Inr [groupNamed ''a@x.com'']"
  using mergeGroups_empty_fragment [of "[groupNamed ''a@x.com'']" teamRestriction] .

text \<open>
  C2. \<^verbatim>\<open>mergeGroups(a, b, r)\<close> returns a result exactly when every group of \<open>b\<close> has a
  non-empty e-mail id that matches at least one expression of \<open>r\<close> and does not occur in
  \<open>a\<close>; on success the result is \<open>a\<close> followed by \<open>b\<close>. This holds for every \<open>a\<close>,
  with or without repeated ids.
\<close>

theorem mergeGroups_succeeds_iff:
  "((\<exists>res. mergeGroups a b r = Inr res) \<longleftrightarrow>
      (\<forall>g \<in> set b. EmailId g \<noteq> []
         \<and> (\<exists>re \<in> set (AllowedGroupsRe r). MatchString re (EmailId g))
         \<and> EmailId g \<notin> EmailId ` set a))
   \<and> (\<forall>res. mergeGroups a b r = Inr res \<longrightarrow> res = a @ b)"
  by (simp add: mergeGroups_Inr_iff checkGroups_None_iff collectEmails_None matchesRegexList_iff)

theorem mergeGroups_succeeds_iff_witness:
  "EmailId (groupNamed ''team-b@x.com'') \<noteq> []
   \<and> MatchString (hd (AllowedGroupsRe teamRestriction)) (EmailId (groupNamed ''team-b@x.com''))
   \<and> EmailId (groupNamed ''team-b@x.com'') \<notin> EmailId ` set [groupNamed ''a@x.com'']
   \<and> mergeGroups [groupNamed ''a@x.com''] [groupNamed ''team-b@x.com''] teamRestriction
       = Inr [groupNamed ''a@x.com'', groupNamed ''team-b@x.com'']"
proof -
  let ?a = "[groupNamed ''a@x.com'']" and ?b = "[groupNamed ''team-b@x.com'']"
  have ok: "\<forall>g \<in> set ?b. EmailId g \<noteq> []
      \<and> (\<exists>re \<in> set (AllowedGroupsRe teamRestriction). MatchString re (EmailId g))
      \<and> EmailId g \<notin> EmailId ` set ?a"
    using MatchString_team by (simp add: groupNamed_def teamRestriction_def)
  with mergeGroups_succeeds_iff [of ?a ?b teamRestriction]
  obtain res where "mergeGroups ?a ?b teamRestriction = Inr res" and "res = ?a @ ?b"
    by blast
  moreover have "EmailId (groupNamed ''team-b@x.com'') \<noteq> []
      \<and> MatchString (hd (AllowedGroupsRe teamRestriction)) (EmailId (groupNamed ''team-b@x.com''))
      \<and> EmailId (groupNamed ''team-b@x.com'') \<notin> EmailId ` set [groupNamed ''a@x.com'']"
    using MatchString_team by (simp add: groupNamed_def)
  ultimately show ?thesis by simp
qed

text \<open>
  C1, evaluated on the code. Two groups with the same e-mail id in one fragment are not
  rejected: the ids of the fragment are compared with the ids of the accumulated list
  only, so the merge succeeds and its result holds the id twice.
\<close>

theorem mergeGroups_accepts_duplicate_in_fragment:
  "mergeGroups [] [groupNamed ''dup@x.com'', groupNamed ''dup@x.com''] defaultRestriction
     = Inr [groupNamed ''dup@x.com'', groupNamed ''dup@x.com'']
   \<and> \<not> distinct (map EmailId [groupNamed ''dup@x.com'', groupNamed ''dup@x.com''])"
  using MatchString_emptyRegexp
  by (simp add: mergeGroups_def groupNamed_def defaultRestriction_def)

text \<open>
  C9. A restriction whose list of compiled expressions is empty matches no string, and
  merging any non-empty fragment under it fails: with the error for a missing e-mail id
  if the first group has none, and with the error for a group that may not be defined
  at the path otherwise.
\<close>

theorem empty_allowed_list_rejects:
  "AllowedGroupsRe r = [] \<Longrightarrow> b \<noteq> [] \<Longrightarrow>
     \<not> matchesRegexList s (AllowedGroupsRe r) \<and>
     mergeGroups a b r =
       Inl (if EmailId (hd b) = [] then GroupsMustHaveEmailId
            else CannotDefineGroup (EmailId (hd b)) (Path r))"
  by (cases b) (simp_all add: mergeGroups_def)

theorem empty_allowed_list_rejects_witness:
  "AllowedGroupsRe (teamRestriction\<lparr>AllowedGroupsRe := []\<rparr>) = []
   \<and> [groupNamed ''team-a@x.com''] \<noteq> []
   \<and> \<not> matchesRegexList ''team-a@x.com'' []
   \<and> mergeGroups [] [groupNamed ''team-a@x.com''] (teamRestriction\<lparr>AllowedGroupsRe := []\<rparr>)
       = Inl (CannotDefineGroup ''team-a@x.com'' ''team/groups.yaml'')"
  using empty_allowed_list_rejects [of "teamRestriction\<lparr>AllowedGroupsRe := []\<rparr>"
      "[groupNamed ''team-a@x.com'']" "''team-a@x.com''" "[]"]
  by (simp add: groupNamed_def teamRestriction_def)

section \<open>Properties of the restriction of a path\<close>

text \<open>
  The restrictions that \<^verbatim>\<open>RestrictionsConfig.Load\<close> produces carry one compiled
  expression for each pattern string, so none of them is \<open>defaultRestriction\<close>, which
  has one expression and no pattern string.
\<close>

lemma compilePatterns_length:
  "compilePatterns Compile path gs res = Inr out \<Longrightarrow> length out = length res + length gs"
  by (induction gs arbitrary: res) (auto split: sum.splits)

lemma compileRestrictions_lengths:
  "compileRestrictions Compile rs ret = Inr out \<Longrightarrow>
   \<forall>r \<in> set ret. length (AllowedGroupsRe r) = length (AllowedGroups r) \<Longrightarrow>
   \<forall>r \<in> set out. length (AllowedGroupsRe r) = length (AllowedGroups r)"
proof (induction rs arbitrary: ret)
  case Nil
  then show ?case by simp
next
  case (Cons r rs)
  from Cons.prems(1) obtain res where
    res: "compilePatterns Compile (Path r) (AllowedGroups r) [] = Inr res" and
    rest: "compileRestrictions Compile rs (ret @ [r\<lparr>AllowedGroupsRe := res\<rparr>]) = Inr out"
    by (auto split: sum.splits)
  from res have "length res = length (AllowedGroups r)"
    by (auto dest: compilePatterns_length)
  with Cons.prems(2)
  have "\<forall>x \<in> set (ret @ [r\<lparr>AllowedGroupsRe := res\<rparr>]).
          length (AllowedGroupsRe x) = length (AllowedGroups x)"
    by auto
  with rest show ?case by (rule Cons.IH)
qed

lemma Load_never_default:
  assumes "RestrictionsConfig_Load Compile path file rc0 = (None, rc)"
  shows "defaultRestriction \<notin> set (Restrictions rc)"
proof -
  from assms obtain rc' ret where
    "compileRestrictions Compile (Restrictions rc') [] = Inr ret" and "rc = rc'\<lparr>Restrictions := ret\<rparr>"
    by (auto simp: RestrictionsConfig_Load_def split: file_contents.splits sum.splits)
  then have "\<forall>r \<in> set (Restrictions rc). length (AllowedGroupsRe r) = length (AllowedGroups r)"
    using compileRestrictions_lengths [of Compile "Restrictions rc'" "[]" ret] by simp
  moreover have "length (AllowedGroupsRe defaultRestriction) \<noteq> length (AllowedGroups defaultRestriction)"
    by (simp add: defaultRestriction_def)
  ultimately show ?thesis by blast
qed

lemma firstRestriction_filter:
  "firstRestriction Match rs cp =
     (case filter (patternMatches Match cp) rs of [] \<Rightarrow> defaultRestriction | r # _ \<Rightarrow> r)"
  by (induction rs) (auto simp: patternMatches_def split: prod.splits)

lemma cleanPath_relative:
  assumes "rel \<noteq> []" "hd rel \<noteq> Separator" "last rel \<noteq> Separator"
  shows "cleanPath (rootDir @ Separator # rel) rootDir = rel"
proof -
  have "TrimPrefix (rootDir @ Separator # rel) rootDir = Separator # rel"
    by (simp add: TrimPrefix_def HasPrefix_def)
  moreover have "dropWhile (\<lambda>c. c \<in> set [Separator]) (Separator # rel) = rel"
    using assms by (cases rel) auto
  moreover have "dropWhile (\<lambda>c. c \<in> set [Separator]) (rev rel) = rev rel"
    using assms by (cases rel rule: rev_cases) auto
  ultimately show ?thesis by (simp add: cleanPath_def Trim_def)
qed

lemma GetRestrictionForPath_filter:
  "GetRestrictionForPath Match rc path rootDir =
     (case filter (patternMatches Match (cleanPath path rootDir)) (Restrictions rc) of
        [] \<Rightarrow> defaultRestriction
      | r # _ \<Rightarrow> r)"
  by (simp add: GetRestrictionForPath_def firstRestriction_filter)

lemma GetRestrictionForPath_no_match:
  assumes "\<forall>r \<in> set (Restrictions rc). \<not> patternMatches Match (cleanPath path rootDir) r"
  shows "GetRestrictionForPath Match rc path rootDir = defaultRestriction"
proof -
  from assms have "filter (patternMatches Match (cleanPath path rootDir)) (Restrictions rc) = []"
    by (simp add: filter_empty_conv)
  then show ?thesis by (simp add: GetRestrictionForPath_filter)
qed

lemma GetRestrictionForPath_declared:
  assumes "\<exists>r \<in> set (Restrictions rc). patternMatches Match (cleanPath path rootDir) r"
  shows "GetRestrictionForPath Match rc path rootDir \<in> set (Restrictions rc)"
proof (cases "filter (patternMatches Match (cleanPath path rootDir)) (Restrictions rc)")
  case Nil
  with assms show ?thesis by (simp add: filter_empty_conv)
next
  case (Cons r rest)
  then have "r \<in> set (filter (patternMatches Match (cleanPath path rootDir)) (Restrictions rc))"
    by simp
  then have "r \<in> set (Restrictions rc)" by simp
  moreover from Cons have "GetRestrictionForPath Match rc path rootDir = r"
    by (simp add: GetRestrictionForPath_filter)
  ultimately show ?thesis by simp
qed

lemma cleanPath_examples:
  "cleanPath ''/cfg/groups.yaml'' ''/cfg'' = ''groups.yaml''"
  "cleanPath ''/cfg/team/groups.yaml'' ''/cfg'' = ''team/groups.yaml''"
  by (simp_all add: cleanPath_def Trim_def TrimPrefix_def HasPrefix_def Separator_def)

lemma Base_examples:
  "Base ''/cfg/groups.yaml'' = ''groups.yaml''"
  "Base ''/cfg/team/groups.yaml'' = ''groups.yaml''"
  by (simp_all add: Base_def Separator_def)

text \<open>
  C4. \<^verbatim>\<open>GetRestrictionForPath\<close> returns the first restriction, in the order of the list,
  whose glob pattern matches the path made relative to the root, and
  \<open>defaultRestriction\<close> when no pattern matches. When \<open>defaultRestriction\<close> is not itself
  in the list (it never is after loading), it is returned only when no pattern matches.
  The relative path of \<open>rootDir/rel\<close> is \<open>rel\<close>. Being a function of its arguments, the
  result is the same on every run.
\<close>

theorem GetRestrictionForPath_first_match:
  "GetRestrictionForPath Match rc path rootDir =
     (case filter (patternMatches Match (cleanPath path rootDir)) (Restrictions rc) of
        [] \<Rightarrow> defaultRestriction
      | r # _ \<Rightarrow> r)
   \<and> ((\<forall>r \<in> set (Restrictions rc). \<not> patternMatches Match (cleanPath path rootDir) r) \<longrightarrow>
        GetRestrictionForPath Match rc path rootDir = defaultRestriction)
   \<and> (defaultRestriction \<notin> set (Restrictions rc) \<longrightarrow>
        GetRestrictionForPath Match rc path rootDir = defaultRestriction \<longrightarrow>
        (\<forall>r \<in> set (Restrictions rc). \<not> patternMatches Match (cleanPath path rootDir) r))
   \<and> (rel \<noteq> [] \<and> hd rel \<noteq> Separator \<and> last rel \<noteq> Separator \<longrightarrow>
        cleanPath (rootDir @ Separator # rel) rootDir = rel)"
proof (intro conjI impI)
  show "GetRestrictionForPath Match rc path rootDir =
     (case filter (patternMatches Match (cleanPath path rootDir)) (Restrictions rc) of
        [] \<Rightarrow> defaultRestriction
      | r # _ \<Rightarrow> r)"
    by (rule GetRestrictionForPath_filter)
next
  assume "\<forall>r \<in> set (Restrictions rc). \<not> patternMatches Match (cleanPath path rootDir) r"
  then show "GetRestrictionForPath Match rc path rootDir = defaultRestriction"
    by (rule GetRestrictionForPath_no_match)
next
  assume nd: "defaultRestriction \<notin> set (Restrictions rc)"
    and df: "GetRestrictionForPath Match rc path rootDir = defaultRestriction"
  show "\<forall>r \<in> set (Restrictions rc). \<not> patternMatches Match (cleanPath path rootDir) r"
  proof (rule ccontr)
    assume "\<not> (\<forall>r \<in> set (Restrictions rc). \<not> patternMatches Match (cleanPath path rootDir) r)"
    then have "\<exists>r \<in> set (Restrictions rc). patternMatches Match (cleanPath path rootDir) r"
      by blast
    then have "GetRestrictionForPath Match rc path rootDir \<in> set (Restrictions rc)"
      by (rule GetRestrictionForPath_declared)
    with nd df show False by simp
  qed
next
  assume "rel \<noteq> [] \<and> hd rel \<noteq> Separator \<and> last rel \<noteq> Separator"
  then show "cleanPath (rootDir @ Separator # rel) rootDir = rel"
    by (simp add: cleanPath_relative)
qed

theorem GetRestrictionForPath_first_match_witness:
  "\<not> patternMatches exampleMatch (cleanPath ''/cfg/groups.yaml'' ''/cfg'') teamRestriction
   \<and> defaultRestriction \<notin> set (Restrictions \<lparr>Restrictions = [teamRestriction]\<rparr>)
   \<and> GetRestrictionForPath exampleMatch \<lparr>Restrictions = [teamRestriction]\<rparr>
        ''/cfg/groups.yaml'' ''/cfg'' = defaultRestriction
   \<and> ''groups.yaml'' \<noteq> [] \<and> hd ''groups.yaml'' \<noteq> Separator \<and> last ''groups.yaml'' \<noteq> Separator
   \<and> cleanPath (''/cfg'' @ Separator # ''groups.yaml'') ''/cfg'' = ''groups.yaml''
   \<and> GetRestrictionForPath exampleMatch \<lparr>Restrictions = [teamRestriction, anyRestriction]\<rparr>
        ''/cfg/team/groups.yaml'' ''/cfg'' = teamRestriction
   \<and> GetRestrictionForPath exampleMatch \<lparr>Restrictions = [anyRestriction, teamRestriction]\<rparr>
        ''/cfg/team/groups.yaml'' ''/cfg'' = anyRestriction"
proof -
  have no: "\<forall>r \<in> set (Restrictions \<lparr>Restrictions = [teamRestriction]\<rparr>).
       \<not> patternMatches exampleMatch (cleanPath ''/cfg/groups.yaml'' ''/cfg'') r"
    by (simp add: cleanPath_examples patternMatches_def exampleMatch_def teamRestriction_def)
  have nd: "defaultRestriction \<notin> set (Restrictions \<lparr>Restrictions = [teamRestriction]\<rparr>)"
    by (simp add: defaultRestriction_def teamRestriction_def)
  have rel: "''groups.yaml'' \<noteq> [] \<and> hd ''groups.yaml'' \<noteq> Separator \<and> last ''groups.yaml'' \<noteq> Separator"
    by (simp add: Separator_def)
  have both: "patternMatches exampleMatch (cleanPath ''/cfg/team/groups.yaml'' ''/cfg'') teamRestriction"
    "patternMatches exampleMatch (cleanPath ''/cfg/team/groups.yaml'' ''/cfg'') anyRestriction"
    by (simp_all add: cleanPath_examples patternMatches_def exampleMatch_def teamRestriction_def
        anyRestriction_def)
  from GetRestrictionForPath_first_match [where Match = exampleMatch
      and rc = "\<lparr>Restrictions = [teamRestriction]\<rparr>"
      and path = "''/cfg/groups.yaml''" and rootDir = "''/cfg''" and rel = "''groups.yaml''"]
    no nd rel
  have none: "GetRestrictionForPath exampleMatch \<lparr>Restrictions = [teamRestriction]\<rparr>
        ''/cfg/groups.yaml'' ''/cfg'' = defaultRestriction"
    and relative: "cleanPath (''/cfg'' @ Separator # ''groups.yaml'') ''/cfg'' = ''groups.yaml''"
    by blast+
  from GetRestrictionForPath_first_match [where Match = exampleMatch
      and rc = "\<lparr>Restrictions = [teamRestriction, anyRestriction]\<rparr>"
      and path = "''/cfg/team/groups.yaml''" and rootDir = "''/cfg''"] both
  have first: "GetRestrictionForPath exampleMatch \<lparr>Restrictions = [teamRestriction, anyRestriction]\<rparr>
        ''/cfg/team/groups.yaml'' ''/cfg'' = teamRestriction"
    by simp
  from GetRestrictionForPath_first_match [where Match = exampleMatch
      and rc = "\<lparr>Restrictions = [anyRestriction, teamRestriction]\<rparr>"
      and path = "''/cfg/team/groups.yaml''" and rootDir = "''/cfg''"] both
  have swapped: "GetRestrictionForPath exampleMatch \<lparr>Restrictions = [anyRestriction, teamRestriction]\<rparr>
        ''/cfg/team/groups.yaml'' ''/cfg'' = anyRestriction"
    by simp
  from no have "\<not> patternMatches exampleMatch (cleanPath ''/cfg/groups.yaml'' ''/cfg'') teamRestriction"
    by simp
  with nd rel none relative first swapped show ?thesis by blast
qed

text \<open>
  C10. A restriction for which the glob match reports an error is skipped: the result is
  the same as if it were not in the list, so the search goes on to the later restrictions,
  and when every restriction of the list is like that the result is \<open>defaultRestriction\<close>.
  No error reaches the caller, whose result type has no room for one.
\<close>

theorem malformed_pattern_is_skipped:
  "(snd (Match (Path r) (cleanPath path rootDir)) \<noteq> None \<longrightarrow>
      GetRestrictionForPath Match (rc\<lparr>Restrictions := pre @ r # post\<rparr>) path rootDir
        = GetRestrictionForPath Match (rc\<lparr>Restrictions := pre @ post\<rparr>) path rootDir)
   \<and> ((\<forall>r \<in> set (Restrictions rc). snd (Match (Path r) (cleanPath path rootDir)) \<noteq> None) \<longrightarrow>
        GetRestrictionForPath Match rc path rootDir = defaultRestriction)"
proof (intro conjI impI)
  assume "snd (Match (Path r) (cleanPath path rootDir)) \<noteq> None"
  then have "\<not> patternMatches Match (cleanPath path rootDir) r"
    by (simp add: patternMatches_def)
  then show "GetRestrictionForPath Match (rc\<lparr>Restrictions := pre @ r # post\<rparr>) path rootDir
        = GetRestrictionForPath Match (rc\<lparr>Restrictions := pre @ post\<rparr>) path rootDir"
    by (simp add: GetRestrictionForPath_filter)
next
  assume "\<forall>r \<in> set (Restrictions rc). snd (Match (Path r) (cleanPath path rootDir)) \<noteq> None"
  then have "\<forall>r \<in> set (Restrictions rc). \<not> patternMatches Match (cleanPath path rootDir) r"
    by (simp add: patternMatches_def)
  then show "GetRestrictionForPath Match rc path rootDir = defaultRestriction"
    by (rule GetRestrictionForPath_no_match)
qed

theorem malformed_pattern_is_skipped_witness:
  "snd (exampleMatch (Path badRestriction) (cleanPath ''/cfg/team/groups.yaml'' ''/cfg'')) \<noteq> None
   \<and> GetRestrictionForPath exampleMatch \<lparr>Restrictions = [] @ badRestriction # [teamRestriction]\<rparr>
        ''/cfg/team/groups.yaml'' ''/cfg'' = teamRestriction
   \<and> GetRestrictionForPath exampleMatch \<lparr>Restrictions = [badRestriction]\<rparr>
        ''/cfg/team/groups.yaml'' ''/cfg'' = defaultRestriction"
proof -
  have bad: "snd (exampleMatch (Path badRestriction) (cleanPath ''/cfg/team/groups.yaml'' ''/cfg'')) \<noteq> None"
    by (simp add: exampleMatch_def badRestriction_def)
  have team: "GetRestrictionForPath exampleMatch \<lparr>Restrictions = [] @ [teamRestriction]\<rparr>
        ''/cfg/team/groups.yaml'' ''/cfg'' = teamRestriction"
    by (simp add: GetRestrictionForPath_def cleanPath_examples exampleMatch_def teamRestriction_def)
  have all: "\<forall>r \<in> set (Restrictions \<lparr>Restrictions = [badRestriction]\<rparr>).
         snd (exampleMatch (Path r) (cleanPath ''/cfg/team/groups.yaml'' ''/cfg'')) \<noteq> None"
    using bad by simp
  from malformed_pattern_is_skipped [where Match = exampleMatch and r = badRestriction
      and path = "''/cfg/team/groups.yaml''" and rootDir = "''/cfg''"
      and rc = "\<lparr>Restrictions = []\<rparr>" and pre = "[]" and post = "[teamRestriction]"] bad team
  have one: "GetRestrictionForPath exampleMatch \<lparr>Restrictions = [] @ badRestriction # [teamRestriction]\<rparr>
        ''/cfg/team/groups.yaml'' ''/cfg'' = teamRestriction"
    by simp
  from malformed_pattern_is_skipped [where Match = exampleMatch and r = badRestriction
      and path = "''/cfg/team/groups.yaml''" and rootDir = "''/cfg''"
      and rc = "\<lparr>Restrictions = [badRestriction]\<rparr>" and pre = "[]" and post = "[]"] all
  have two: "GetRestrictionForPath exampleMatch \<lparr>Restrictions = [badRestriction]\<rparr>
        ''/cfg/team/groups.yaml'' ''/cfg'' = defaultRestriction"
    by blast
  from bad one two show ?thesis by blast
qed

text \<open>
  C8. Every string matches the list of expressions of \<open>defaultRestriction\<close>. Hence for a
  path that no declared pattern matches, a failed merge can only report a missing e-mail
  id or a duplicate, never a group that may not be defined at the path.
\<close>

theorem default_restriction_permits_all:
  "matchesRegexList s (AllowedGroupsRe defaultRestriction) \<and>
   ((\<forall>r \<in> set (Restrictions rc). \<not> patternMatches Match (cleanPath path rootDir) r) \<longrightarrow>
      (\<forall>e. mergeGroups a b (GetRestrictionForPath Match rc path rootDir) = Inl e \<longrightarrow>
         e = GroupsMustHaveEmailId \<or> (\<exists>g \<in> set b. e = CannotOverwrite (EmailId g))))"
proof (intro conjI impI allI)
  show "matchesRegexList s (AllowedGroupsRe defaultRestriction)"
    by (simp add: defaultRestriction_def MatchString_emptyRegexp)
next
  fix e
  assume "\<forall>r \<in> set (Restrictions rc). \<not> patternMatches Match (cleanPath path rootDir) r"
  then have "GetRestrictionForPath Match rc path rootDir = defaultRestriction"
    by (rule GetRestrictionForPath_no_match)
  moreover assume "mergeGroups a b (GetRestrictionForPath Match rc path rootDir) = Inl e"
  ultimately have "checkGroups b defaultRestriction (collectEmails a Map.empty) = Some e"
    by (simp add: mergeGroups_Inl_iff)
  then show "e = GroupsMustHaveEmailId \<or> (\<exists>g \<in> set b. e = CannotOverwrite (EmailId g))"
    by (rule checkGroups_default)
qed

theorem default_restriction_permits_all_witness:
  "\<not> patternMatches exampleMatch (cleanPath ''/cfg/groups.yaml'' ''/cfg'') teamRestriction
   \<and> matchesRegexList ''other@x.com'' (AllowedGroupsRe defaultRestriction)
   \<and> mergeGroups [groupNamed ''other@x.com''] [groupNamed ''other@x.com'']
        (GetRestrictionForPath exampleMatch \<lparr>Restrictions = [teamRestriction]\<rparr>
           ''/cfg/groups.yaml'' ''/cfg'')
       = Inl (CannotOverwrite ''other@x.com'')"
proof -
  let ?rc = "\<lparr>Restrictions = [teamRestriction]\<rparr>"
  let ?gs = "[groupNamed ''other@x.com'']"
  have no: "\<forall>r \<in> set (Restrictions ?rc).
       \<not> patternMatches exampleMatch (cleanPath ''/cfg/groups.yaml'' ''/cfg'') r"
    by (simp add: cleanPath_examples patternMatches_def exampleMatch_def teamRestriction_def)
  have "\<nexists>res. mergeGroups ?gs ?gs
        (GetRestrictionForPath exampleMatch ?rc ''/cfg/groups.yaml'' ''/cfg'') = Inr res"
    by (simp add: mergeGroups_Inr_iff checkGroups_None_iff collectEmails_None)
  then have fails: "\<exists>e. mergeGroups ?gs ?gs
        (GetRestrictionForPath exampleMatch ?rc ''/cfg/groups.yaml'' ''/cfg'') = Inl e"
    by (cases "mergeGroups ?gs ?gs
        (GetRestrictionForPath exampleMatch ?rc ''/cfg/groups.yaml'' ''/cfg'')") auto
  then obtain e where e: "mergeGroups ?gs ?gs
        (GetRestrictionForPath exampleMatch ?rc ''/cfg/groups.yaml'' ''/cfg'') = Inl e" ..
  with default_restriction_permits_all [of "''other@x.com''" ?rc exampleMatch
      "''/cfg/groups.yaml''" "''/cfg''" ?gs ?gs] no
  have "matchesRegexList ''other@x.com'' (AllowedGroupsRe defaultRestriction)"
    and "e = GroupsMustHaveEmailId \<or> (\<exists>g \<in> set ?gs. e = CannotOverwrite (EmailId g))"
    by blast+
  moreover have "e \<noteq> GroupsMustHaveEmailId"
    using e by (auto simp: mergeGroups_Inl_iff groupNamed_def split: if_splits)
  ultimately show ?thesis using no e by (simp add: groupNamed_def)
qed

section \<open>Properties of loading the group files\<close>

lemma walkFn_groups_file:
  assumes "v_err v = None" "Base (v_path v) = ''groups.yaml''" "v_file v = Parsed fragment"
  shows "walkFn Match rootDir rc v gc =
     (case mergeGroups (Groups gc) (Groups fragment)
             (GetRestrictionForPath Match rc (v_path v) rootDir) of
        Inl err \<Rightarrow> (Some (CouldntMerge err), gc)
      | Inr mergedGroups \<Rightarrow> (None, gc\<lparr>Groups := mergedGroups\<rparr>))"
  using assms by (simp add: walkFn_def)

lemma Load_append:
  "Load Match rootDir rc (vs @ ws) gc0 =
     (case Load Match rootDir rc vs gc0 of
        (Some err, gc) \<Rightarrow> (Some err, gc)
      | (None, gc) \<Rightarrow> Load Match rootDir rc ws gc)"
  by (induction vs arbitrary: gc0) (auto split: prod.splits option.splits)

text \<open>
  C3. Let the walk so far have succeeded with the accumulated configuration \<open>gc\<close>, and
  let the next entry be a readable, well-formed \<^verbatim>\<open>groups.yaml\<close>. If merging its groups
  fails, the callback and the whole \<^verbatim>\<open>Load\<close> return that error, wrapped, and the
  configuration is still \<open>gc\<close>. In particular, if the groups of the file all have
  non-empty, permitted ids and one of these ids is already in \<open>gc\<close>, the error is the
  duplicate error for such an id, and \<open>gc\<close> keeps exactly the groups of the earlier files.
\<close>

theorem failed_merge_keeps_accumulator:
  assumes "Load Match rootDir rc vs gc0 = (None, gc)"
    and "v_err v = None" and "Base (v_path v) = ''groups.yaml''" and "v_file v = Parsed fragment"
  shows "(\<forall>e. mergeGroups (Groups gc) (Groups fragment)
                (GetRestrictionForPath Match rc (v_path v) rootDir) = Inl e \<longrightarrow>
            walkFn Match rootDir rc v gc = (Some (CouldntMerge e), gc)
            \<and> Load Match rootDir rc (vs @ v # ws) gc0 = (Some (CouldntMerge e), gc))
       \<and> ((\<forall>g \<in> set (Groups fragment). EmailId g \<noteq> []
              \<and> matchesRegexList (EmailId g)
                   (AllowedGroupsRe (GetRestrictionForPath Match rc (v_path v) rootDir)))
           \<and> (\<exists>g \<in> set (Groups fragment). EmailId g \<in> EmailId ` set (Groups gc)) \<longrightarrow>
           (\<exists>g \<in> set (Groups fragment). EmailId g \<in> EmailId ` set (Groups gc)
              \<and> Load Match rootDir rc (vs @ v # ws) gc0
                  = (Some (CouldntMerge (CannotOverwrite (EmailId g))), gc)))"
proof -
  let ?r = "GetRestrictionForPath Match rc (v_path v) rootDir"
  have fail: "walkFn Match rootDir rc v gc = (Some (CouldntMerge e), gc)
      \<and> Load Match rootDir rc (vs @ v # ws) gc0 = (Some (CouldntMerge e), gc)"
    if "mergeGroups (Groups gc) (Groups fragment) ?r = Inl e" for e
    using that assms by (simp add: Load_append walkFn_groups_file)
  have dup: "\<exists>g \<in> set (Groups fragment). EmailId g \<in> EmailId ` set (Groups gc)
        \<and> mergeGroups (Groups gc) (Groups fragment) ?r = Inl (CannotOverwrite (EmailId g))"
    if ok: "\<forall>g \<in> set (Groups fragment). EmailId g \<noteq> []
              \<and> matchesRegexList (EmailId g) (AllowedGroupsRe ?r)"
      and shared: "\<exists>g \<in> set (Groups fragment). EmailId g \<in> EmailId ` set (Groups gc)"
  proof -
    from shared have "\<exists>g \<in> set (Groups fragment).
        collectEmails (Groups gc) Map.empty (EmailId g) \<noteq> None"
      by (simp add: collectEmails_None)
    with ok have "\<exists>g \<in> set (Groups fragment).
        collectEmails (Groups gc) Map.empty (EmailId g) \<noteq> None
        \<and> checkGroups (Groups fragment) ?r (collectEmails (Groups gc) Map.empty)
            = Some (CannotOverwrite (EmailId g))"
      by (rule checkGroups_duplicate)
    then show ?thesis by (simp add: collectEmails_None mergeGroups_Inl_iff)
  qed
  show ?thesis using fail dup by blast
qed

theorem failed_merge_keeps_accumulator_witness:
  "Load exampleMatch ''/cfg'' \<lparr>Restrictions = []\<rparr>
      [groupsFile ''/cfg/groups.yaml'' [groupNamed ''dup@x.com'']] \<lparr>Groups = []\<rparr>
     = (None, \<lparr>Groups = [groupNamed ''dup@x.com'']\<rparr>)
   \<and> Load exampleMatch ''/cfg'' \<lparr>Restrictions = []\<rparr>
      ([groupsFile ''/cfg/groups.yaml'' [groupNamed ''dup@x.com'']]
        @ groupsFile ''/cfg/team/groups.yaml'' [groupNamed ''dup@x.com''] # []) \<lparr>Groups = []\<rparr>
     = (Some (CouldntMerge (CannotOverwrite ''dup@x.com'')), \<lparr>Groups = [groupNamed ''dup@x.com'']\<rparr>)"
proof -
  let ?g = "groupNamed ''dup@x.com''"
  let ?v1 = "groupsFile ''/cfg/groups.yaml'' [?g]"
  let ?v2 = "groupsFile ''/cfg/team/groups.yaml'' [?g]"
  let ?rc = "(\<lparr>Restrictions = []\<rparr> :: RestrictionsConfig)"
  let ?gc = "\<lparr>Groups = [?g]\<rparr>"
  have first: "Load exampleMatch ''/cfg'' ?rc [?v1] \<lparr>Groups = []\<rparr> = (None, ?gc)"
    using MatchString_emptyRegexp
    by (simp add: walkFn_def groupsFile_def Base_examples GetRestrictionForPath_def
        mergeGroups_def defaultRestriction_def groupNamed_def)
  have v2: "v_err ?v2 = None" "Base (v_path ?v2) = ''groups.yaml''"
    "v_file ?v2 = Parsed \<lparr>Groups = [?g]\<rparr>"
    by (simp_all add: groupsFile_def Base_examples)
  have ok: "\<forall>g \<in> set (Groups \<lparr>Groups = [?g]\<rparr>). EmailId g \<noteq> []
              \<and> matchesRegexList (EmailId g)
                   (AllowedGroupsRe (GetRestrictionForPath exampleMatch ?rc (v_path ?v2) ''/cfg''))"
    using MatchString_emptyRegexp
    by (simp add: GetRestrictionForPath_def defaultRestriction_def groupNamed_def)
  have shared: "\<exists>g \<in> set (Groups \<lparr>Groups = [?g]\<rparr>). EmailId g \<in> EmailId ` set (Groups ?gc)"
    by simp
  from failed_merge_keeps_accumulator [OF first v2, of "[]"] ok shared
  have "Load exampleMatch ''/cfg'' ?rc ([?v1] @ ?v2 # []) \<lparr>Groups = []\<rparr>
     = (Some (CouldntMerge (CannotOverwrite (EmailId ?g))), ?gc)"
    by simp
  with first show ?thesis by (simp add: groupNamed_def)
qed

section \<open>Properties of the reconciliation\<close>

lemma handled_mono: "handled res lg t \<Longrightarrow> set lg \<subseteq> set lg' \<Longrightarrow> handled res lg' t"
  by (induction res lg t rule: handled.induct) (auto split: if_splits)

lemma handled_append:
  "handled None lg t1 \<Longrightarrow> handled res lg t2 \<Longrightarrow> handled res lg (t1 @ t2)"
  by (induction "None :: error option" lg t1 rule: handled.induct) (auto split: if_splits list.splits)

lemma handled_nth:
  "handled res lg t \<Longrightarrow> i < length t \<Longrightarrow> t ! i = (c, Some e) \<Longrightarrow>
     (if isPlainMemberAdd c
      then e \<in> set lg \<and> Suc i < length t \<and> isRemoval (fst (t ! Suc i))
      else Suc i = length t \<and> res = Some e)"
proof (induction res lg t arbitrary: i rule: handled.induct)
  case (1 res lg)
  then show ?case by simp
next
  case (2 res lg c' t)
  then show ?case by (cases i) auto
next
  case (3 res lg c' e' t)
  show ?case
  proof (cases i)
    case 0
    with 3 show ?thesis by (auto split: if_splits list.splits)
  next
    case (Suc j)
    with 3 show ?thesis by (auto split: if_splits)
  qed
qed

lemma roles_distinct: "ownerRole \<noteq> memberRole" "managerRole \<noteq> memberRole"
  by (simp_all add: ownerRole_def managerRole_def memberRole_def)

lemma emitsI:
  assumes "\<And>w res w'. f w = (res, w') \<Longrightarrow>
     \<exists>t lg. calls w' = calls w @ t \<and> logged w' = logged w @ lg \<and> Q res t lg"
  shows "emits f Q"
  using assms unfolding emits_def by blast

lemma emitsD:
  assumes "emits f Q" and "f w = (res, w')"
  obtains t lg where "calls w' = calls w @ t" and "logged w' = logged w @ lg" and "Q res t lg"
  using assms unfolding emits_def by blast

lemma emits_weaken:
  assumes "emits f P" and "\<And>res t lg. P res t lg \<Longrightarrow> Q res t lg"
  shows "emits f Q"
  using assms unfolding emits_def by blast

lemma andThen_cases:
  assumes "andThen f k w = (res, w')"
  obtains (stop) e where "f w = (Some e, w')" and "res = Some e"
  | (continue) w1 where "f w = (None, w1)" and "k w1 = (res, w')"
  using assms by (auto simp: andThen_def split: prod.splits option.splits)

lemma emits_andThen:
  assumes f: "emits f P" and k: "emits k Q"
    and stop: "\<And>e t lg. P (Some e) t lg \<Longrightarrow> R (Some e) t lg"
    and seq: "\<And>t1 l1 res t2 l2. P None t1 l1 \<Longrightarrow> Q res t2 l2 \<Longrightarrow> R res (t1 @ t2) (l1 @ l2)"
  shows "emits (andThen f k) R"
proof (rule emitsI)
  fix w res w'
  assume "andThen f k w = (res, w')"
  then show "\<exists>t lg. calls w' = calls w @ t \<and> logged w' = logged w @ lg \<and> R res t lg"
  proof (cases rule: andThen_cases)
    case (stop e)
    from f stop(1) obtain t lg where
      "calls w' = calls w @ t" "logged w' = logged w @ lg" "P (Some e) t lg"
      by (rule emitsD)
    with stop(2) assms(3) show ?thesis by blast
  next
    case (continue w1)
    from f continue(1) obtain t1 l1 where
      1: "calls w1 = calls w @ t1" "logged w1 = logged w @ l1" "P None t1 l1"
      by (rule emitsD)
    from k continue(2) obtain t2 l2 where
      2: "calls w' = calls w1 @ t2" "logged w' = logged w1 @ l2" "Q res t2 l2"
      by (rule emitsD)
    from 1 2 have "calls w' = calls w @ (t1 @ t2)" "logged w' = logged w @ (l1 @ l2)"
      by simp_all
    moreover from 1(3) 2(3) have "R res (t1 @ t2) (l1 @ l2)" by (rule seq)
    ultimately show ?thesis by blast
  qed
qed

lemma emits_invoke: "emits (invoke svc c) (\<lambda>res t lg. t = [(c, res)] \<and> lg = [])"
  by (rule emitsI) (auto simp: invoke_def split: prod.splits)

lemma emits_addMembers:
  "emits (addMembers svc g)
     (\<lambda>res t lg. res = None \<and>
        (\<exists>r. t = [(AddOrUpdateGroupMembers memberRole (Members g), r)]
           \<and> lg = (case r of None \<Rightarrow> [] | Some e \<Rightarrow> [e])))"
proof (rule emitsI)
  fix w res w'
  assume run: "addMembers svc g w = (res, w')"
  obtain r s where "svc (AddOrUpdateGroupMembers memberRole (Members g)) (remote w) = (r, s)"
    by (cases "svc (AddOrUpdateGroupMembers memberRole (Members g)) (remote w)")
  with run have "res = None
      \<and> calls w' = calls w @ [(AddOrUpdateGroupMembers memberRole (Members g), r)]
      \<and> logged w' = logged w @ (case r of None \<Rightarrow> [] | Some e \<Rightarrow> [e])"
    by (cases r) (auto simp: addMembers_def invoke_def Println_def)
  then show "\<exists>t lg. calls w' = calls w @ t \<and> logged w' = logged w @ lg \<and> res = None \<and>
        (\<exists>r. t = [(AddOrUpdateGroupMembers memberRole (Members g), r)]
           \<and> lg = (case r of None \<Rightarrow> [] | Some e \<Rightarrow> [e]))"
    by blast
qed

lemma emits_removeMembers:
  "emits (removeMembers svc g) (\<lambda>res t lg. t = [(removalCall g, res)] \<and> lg = [])"
  by (rule emitsI)
    (auto simp: removeMembers_def removalCall_def invoke_def Let_def split: prod.splits)

lemma emits_members:
  "emits (andThen (addMembers svc g) (removeMembers svc g))
     (\<lambda>res t lg. \<exists>r. t = [(AddOrUpdateGroupMembers memberRole (Members g), r),
                          (removalCall g, res)]
        \<and> lg = (case r of None \<Rightarrow> [] | Some e \<Rightarrow> [e]))"
  by (rule emits_andThen [OF emits_addMembers emits_removeMembers]) auto

lemma isRemoval_removalCall: "isRemoval (removalCall g)"
  by (simp add: isRemoval_def removalCall_def)

lemma not_memberAdd_removalCall: "\<not> isPlainMemberAdd (removalCall g)"
  by (simp add: isPlainMemberAdd_def removalCall_def)

lemma isPlainMemberAdd_simps:
  "isPlainMemberAdd (AddOrUpdateGroupMembers memberRole ms)"
  "\<not> isPlainMemberAdd (AddOrUpdateGroupMembers ownerRole ms)"
  "\<not> isPlainMemberAdd (AddOrUpdateGroupMembers managerRole ms)"
  "\<not> isPlainMemberAdd CreateOrUpdateGroupIfNescessary"
  "\<not> isPlainMemberAdd UpdateGroupSettings"
  "\<not> isPlainMemberAdd DeleteGroupsIfNecessary"
  "\<not> isPlainMemberAdd (AdminSetGroup g)"
  "\<not> isPlainMemberAdd (GroupSetGroup g)"
  by (simp_all add: isPlainMemberAdd_def roles_distinct)

lemma orderly_single:
  "\<not> isPlainMemberAdd c \<Longrightarrow> orderly X [c] res [(c, res)] []"
  by (cases res) (simp_all add: orderly_def)

lemma orderly_members:
  "orderly X [AddOrUpdateGroupMembers memberRole (Members g), removalCall g] res
     [(AddOrUpdateGroupMembers memberRole (Members g), r), (removalCall g, res)]
     (case r of None \<Rightarrow> [] | Some e \<Rightarrow> [e])"
  by (cases r; cases res)
    (simp_all add: orderly_def isPlainMemberAdd_simps isRemoval_removalCall
      not_memberAdd_removalCall)

lemma orderly_stop: "orderly X p (Some e) t lg \<Longrightarrow> orderly X (p @ q) (Some e) t lg"
  by (simp add: orderly_def)

lemma orderly_seq:
  assumes "orderly X p None t1 l1" and "orderly X q res t2 l2"
  shows "orderly X (p @ q) res (t1 @ t2) (l1 @ l2)"
proof -
  from assms have "handled None (l1 @ l2) t1" "handled res (l1 @ l2) t2"
    by (auto simp: orderly_def intro: handled_mono)
  then have "handled res (l1 @ l2) (t1 @ t2)" by (rule handled_append)
  moreover from assms have "res = None \<longrightarrow> map fst (t1 @ t2) = p @ q"
    by (simp add: orderly_def)
  moreover from assms(2) have "\<forall>e. res = Some e \<longrightarrow>
      (\<exists>c. t1 @ t2 \<noteq> [] \<and> last (t1 @ t2) = (c, Some e) \<and> \<not> isPlainMemberAdd c) \<or> X e"
    by (auto simp: orderly_def)
  ultimately show ?thesis by (simp add: orderly_def)
qed

lemma orderly_weaken:
  "orderly X p res t lg \<Longrightarrow> (\<And>e. X e \<Longrightarrow> Y e) \<Longrightarrow> orderly Y p res t lg"
  by (auto simp: orderly_def)

lemma emits_orderly_andThen:
  assumes "emits f (orderly X p)" and "emits k (orderly X q)"
  shows "emits (andThen f k) (orderly X (p @ q))"
  using assms by (rule emits_andThen) (auto intro: orderly_stop orderly_seq)

lemma emits_orderly_invoke:
  "\<not> isPlainMemberAdd c \<Longrightarrow> emits (invoke svc c) (orderly X [c])"
  by (rule emits_weaken [OF emits_invoke]) (auto intro: orderly_single)

lemma emits_orderly_members:
  "emits (andThen (addMembers svc g) (removeMembers svc g))
     (orderly X [AddOrUpdateGroupMembers memberRole (Members g), removalCall g])"
  by (rule emits_weaken [OF emits_members]) (auto intro: orderly_members)

lemma reconcileLoop_Cons:
  "reconcileLoop svc (g # groups) = andThen (reconcileGroup svc g) (reconcileLoop svc groups)"
  by (rule ext) (simp add: andThen_def)

lemma emits_orderly_reconcileGroup:
  "emits (reconcileGroup svc g)
     (orderly (\<lambda>e. EmailId g = [] \<and> e = GroupHasNoEmailId g) (callsFor g))"
proof (cases "EmailId g = []")
  case True
  then show ?thesis
    by (intro emitsI) (auto simp: reconcileGroup_def orderly_def)
next
  case False
  let ?X = "\<lambda>e. EmailId g = [] \<and> e = GroupHasNoEmailId g"
  let ?steps = "andThen (invoke svc CreateOrUpdateGroupIfNescessary)
        (andThen (invoke svc UpdateGroupSettings)
        (andThen (invoke svc (AddOrUpdateGroupMembers ownerRole (Owners g)))
        (andThen (invoke svc (AddOrUpdateGroupMembers managerRole (Managers g)))
        (andThen (addMembers svc g) (removeMembers svc g)))))"
  have s4: "emits (andThen (invoke svc (AddOrUpdateGroupMembers managerRole (Managers g)))
        (andThen (addMembers svc g) (removeMembers svc g)))
      (orderly ?X ([AddOrUpdateGroupMembers managerRole (Managers g)]
         @ [AddOrUpdateGroupMembers memberRole (Members g), removalCall g]))"
    by (rule emits_orderly_andThen [OF emits_orderly_invoke emits_orderly_members])
      (simp add: isPlainMemberAdd_simps)
  have s3: "emits (andThen (invoke svc (AddOrUpdateGroupMembers ownerRole (Owners g)))
        (andThen (invoke svc (AddOrUpdateGroupMembers managerRole (Managers g)))
        (andThen (addMembers svc g) (removeMembers svc g))))
      (orderly ?X ([AddOrUpdateGroupMembers ownerRole (Owners g)]
         @ [AddOrUpdateGroupMembers managerRole (Managers g)]
         @ [AddOrUpdateGroupMembers memberRole (Members g), removalCall g]))"
    by (rule emits_orderly_andThen [OF emits_orderly_invoke s4])
      (simp add: isPlainMemberAdd_simps)
  have s2: "emits (andThen (invoke svc UpdateGroupSettings)
        (andThen (invoke svc (AddOrUpdateGroupMembers ownerRole (Owners g)))
        (andThen (invoke svc (AddOrUpdateGroupMembers managerRole (Managers g)))
        (andThen (addMembers svc g) (removeMembers svc g)))))
      (orderly ?X ([UpdateGroupSettings]
         @ [AddOrUpdateGroupMembers ownerRole (Owners g)]
         @ [AddOrUpdateGroupMembers managerRole (Managers g)]
         @ [AddOrUpdateGroupMembers memberRole (Members g), removalCall g]))"
    by (rule emits_orderly_andThen [OF emits_orderly_invoke s3])
      (simp add: isPlainMemberAdd_simps)
  have "emits ?steps
      (orderly ?X ([CreateOrUpdateGroupIfNescessary] @ [UpdateGroupSettings]
         @ [AddOrUpdateGroupMembers ownerRole (Owners g)]
         @ [AddOrUpdateGroupMembers managerRole (Managers g)]
         @ [AddOrUpdateGroupMembers memberRole (Members g), removalCall g]))"
    by (rule emits_orderly_andThen [OF emits_orderly_invoke s2])
      (simp add: isPlainMemberAdd_simps)
  then have steps: "emits ?steps (orderly ?X (drop 2 (callsFor g)))"
    by (simp add: callsFor_def)
  show ?thesis
  proof (rule emitsI)
    fix w res w'
    let ?w0 = "SetGroup svc (GroupSetGroup g) (SetGroup svc (AdminSetGroup g) w)"
    assume "reconcileGroup svc g w = (res, w')"
    with False have "?steps ?w0 = (res, w')" by (simp add: reconcileGroup_def)
    with steps obtain t lg where
      t: "calls w' = calls ?w0 @ t" "logged w' = logged ?w0 @ lg"
        "orderly ?X (drop 2 (callsFor g)) res t lg"
      by (rule emitsD)
    have "orderly ?X [AdminSetGroup g, GroupSetGroup g] None
        [(AdminSetGroup g, None), (GroupSetGroup g, None)] []"
      by (simp add: orderly_def)
    from this t(3)
    have "orderly ?X ([AdminSetGroup g, GroupSetGroup g] @ drop 2 (callsFor g)) res
        ([(AdminSetGroup g, None), (GroupSetGroup g, None)] @ t) ([] @ lg)"
      by (rule orderly_seq)
    then have "orderly ?X (callsFor g) res
        ([(AdminSetGroup g, None), (GroupSetGroup g, None)] @ t) lg"
      by (simp add: callsFor_def)
    moreover from t have "calls w' = calls w @ ([(AdminSetGroup g, None), (GroupSetGroup g, None)] @ t)"
      and "logged w' = logged w @ lg"
      by (simp_all add: SetGroup_def)
    ultimately show "\<exists>t lg. calls w' = calls w @ t \<and> logged w' = logged w @ lg
        \<and> orderly ?X (callsFor g) res t lg"
      by blast
  qed
qed

lemma emits_orderly_reconcileLoop:
  "emits (reconcileLoop svc groups)
     (orderly (\<lambda>e. \<exists>g \<in> set groups. EmailId g = [] \<and> e = GroupHasNoEmailId g)
        (concat (map callsFor groups)))"
proof (induction groups)
  case Nil
  show ?case by (rule emitsI) (simp add: orderly_def)
next
  case (Cons g groups)
  let ?X = "\<lambda>e. \<exists>g' \<in> set (g # groups). EmailId g' = [] \<and> e = GroupHasNoEmailId g'"
  have "emits (reconcileGroup svc g) (orderly ?X (callsFor g))"
    by (rule emits_weaken [OF emits_orderly_reconcileGroup]) (auto elim: orderly_weaken)
  moreover have "emits (reconcileLoop svc groups) (orderly ?X (concat (map callsFor groups)))"
    by (rule emits_weaken [OF Cons.IH]) (auto elim: orderly_weaken)
  ultimately have "emits (andThen (reconcileGroup svc g) (reconcileLoop svc groups))
      (orderly ?X (callsFor g @ concat (map callsFor groups)))"
    by (rule emits_orderly_andThen)
  then show ?case by (simp add: reconcileLoop_Cons)
qed

lemma emits_orderly_reconcileGroups:
  "emits (reconcileGroups svc groups)
     (orderly (\<lambda>e. \<exists>g \<in> set groups. EmailId g = [] \<and> e = GroupHasNoEmailId g)
        (concat (map callsFor groups) @ [DeleteGroupsIfNecessary]))"
proof -
  have "reconcileGroups svc groups
      = andThen (reconcileLoop svc groups) (invoke svc DeleteGroupsIfNecessary)"
    by (rule ext) (simp add: reconcileGroups_def)
  moreover have "emits (andThen (reconcileLoop svc groups) (invoke svc DeleteGroupsIfNecessary))
     (orderly (\<lambda>e. \<exists>g \<in> set groups. EmailId g = [] \<and> e = GroupHasNoEmailId g)
        (concat (map callsFor groups) @ [DeleteGroupsIfNecessary]))"
    by (rule emits_orderly_andThen [OF emits_orderly_reconcileLoop emits_orderly_invoke])
      (simp add: isPlainMemberAdd_simps)
  ultimately show ?thesis by simp
qed

lemma untouched_alone: "untouched g t \<Longrightarrow> removalAsConfigured g t"
  by (auto simp: untouched_def removalAsConfigured_def)

lemma untouched_then:
  "untouched g t1 \<Longrightarrow> removalAsConfigured g t2 \<Longrightarrow> removalAsConfigured g (t1 @ t2)"
  by (auto simp: untouched_def removalAsConfigured_def)

lemma emits_untouched_invoke:
  "\<not> isRemoval c \<Longrightarrow> c \<noteq> AddOrUpdateGroupMembers memberRole (Members g) \<Longrightarrow>
     emits (invoke svc c) (\<lambda>res t lg. untouched g t)"
  by (rule emits_weaken [OF emits_invoke]) (simp add: untouched_def)

lemma emits_removal_andThen:
  assumes "emits f (\<lambda>res t lg. untouched g t)" and "emits k (\<lambda>res t lg. removalAsConfigured g t)"
  shows "emits (andThen f k) (\<lambda>res t lg. removalAsConfigured g t)"
  using assms by (rule emits_andThen) (auto intro: untouched_alone untouched_then)

lemma emits_removal_members:
  "emits (andThen (addMembers svc g) (removeMembers svc g))
     (\<lambda>res t lg. removalAsConfigured g t)"
  by (rule emits_weaken [OF emits_members]) (auto simp: removalAsConfigured_def isRemoval_def)

lemma emits_removal_reconcileGroup:
  "emits (reconcileGroup svc g) (\<lambda>res t lg. removalAsConfigured g t)"
proof (cases "EmailId g = []")
  case True
  then show ?thesis
    by (intro emitsI) (auto simp: reconcileGroup_def removalAsConfigured_def)
next
  case False
  let ?steps = "andThen (invoke svc CreateOrUpdateGroupIfNescessary)
        (andThen (invoke svc UpdateGroupSettings)
        (andThen (invoke svc (AddOrUpdateGroupMembers ownerRole (Owners g)))
        (andThen (invoke svc (AddOrUpdateGroupMembers managerRole (Managers g)))
        (andThen (addMembers svc g) (removeMembers svc g)))))"
  have steps: "emits ?steps (\<lambda>res t lg. removalAsConfigured g t)"
    by (intro emits_removal_andThen emits_untouched_invoke emits_removal_members)
      (simp_all add: isRemoval_def roles_distinct)
  show ?thesis
  proof (rule emitsI)
    fix w res w'
    let ?w0 = "SetGroup svc (GroupSetGroup g) (SetGroup svc (AdminSetGroup g) w)"
    assume "reconcileGroup svc g w = (res, w')"
    with False have "?steps ?w0 = (res, w')" by (simp add: reconcileGroup_def)
    with steps obtain t lg where
      t: "calls w' = calls ?w0 @ t" "logged w' = logged ?w0 @ lg" "removalAsConfigured g t"
      by (rule emitsD)
    have "untouched g [(AdminSetGroup g, None), (GroupSetGroup g, None)]"
      by (simp add: untouched_def isRemoval_def)
    from this t(3)
    have "removalAsConfigured g ([(AdminSetGroup g, None), (GroupSetGroup g, None)] @ t)"
      by (rule untouched_then)
    moreover from t have "calls w' = calls w @ ([(AdminSetGroup g, None), (GroupSetGroup g, None)] @ t)"
      and "logged w' = logged w @ lg"
      by (simp_all add: SetGroup_def)
    ultimately show "\<exists>t lg. calls w' = calls w @ t \<and> logged w' = logged w @ lg
        \<and> removalAsConfigured g t"
      by blast
  qed
qed

lemmas run_defs =
  reconcileGroups_def reconcileGroup_def andThen_def invoke_def SetGroup_def addMembers_def
  removeMembers_def Println_def setting_def syncedGroup_def startWorld_def
  ownerRole_def managerRole_def memberRole_def

lemma run_failingMembers:
  "reconcileGroups failingMembers [syncedGroup] startWorld =
     (None,
      \<lparr>remote = (),
       calls =
         [(AdminSetGroup syncedGroup, None), (GroupSetGroup syncedGroup, None),
          (CreateOrUpdateGroupIfNescessary, None), (UpdateGroupSettings, None),
          (AddOrUpdateGroupMembers ''OWNER'' [''o@x.com''], None),
          (AddOrUpdateGroupMembers ''MANAGER'' [''m@x.com''], None),
          (AddOrUpdateGroupMembers ''MEMBER'' [''p@x.com''], Some (RemoteError ''no such member'')),
          (RemoveMembersFromGroup [''o@x.com'', ''m@x.com'', ''p@x.com''], None),
          (DeleteGroupsIfNecessary, None)],
       logged = [RemoteError ''no such member'']\<rparr>)"
  by (simp add: run_defs failingMembers_def)

lemma run_failingSettings:
  "reconcileGroups failingSettings [syncedGroup, groupNamed ''b@x.com''] startWorld =
     (Some (RemoteError ''forbidden''),
      \<lparr>remote = (),
       calls =
         [(AdminSetGroup syncedGroup, None), (GroupSetGroup syncedGroup, None),
          (CreateOrUpdateGroupIfNescessary, None),
          (UpdateGroupSettings, Some (RemoteError ''forbidden''))],
       logged = []\<rparr>)"
  by (simp add: run_defs failingSettings_def)

lemma run_okService:
  "reconcileGroup okService syncedGroup startWorld =
     (None,
      \<lparr>remote = (),
       calls =
         [(AdminSetGroup syncedGroup, None), (GroupSetGroup syncedGroup, None),
          (CreateOrUpdateGroupIfNescessary, None), (UpdateGroupSettings, None),
          (AddOrUpdateGroupMembers ''OWNER'' [''o@x.com''], None),
          (AddOrUpdateGroupMembers ''MANAGER'' [''m@x.com''], None),
          (AddOrUpdateGroupMembers ''MEMBER'' [''p@x.com''], None),
          (RemoveMembersFromGroup [''o@x.com'', ''m@x.com'', ''p@x.com''], None)],
       logged = []\<rparr>)"
  by (simp add: run_defs okService_def)

text \<open>
  C5. In a run of \<^verbatim>\<open>reconcileGroups\<close> that starts with an empty trace and an empty log:
  a failed call for the plain members (role \<^verbatim>\<open>MEMBER\<close>) has its error printed and is
  followed by the removal call of the same group; a failed call of any other kind is the
  last call of the run and its error is the result. Conversely, when the run returns an
  error, either the last call failed with that error and was not a call for plain
  members, or the error is the one for a group without e-mail id. When the run returns
  no error, every group has had all its calls, in order, followed by the final deletion
  pass, whether or not calls for plain members failed on the way.
\<close>

theorem member_add_errors_do_not_abort:
  assumes "reconcileGroups svc groups w = (res, w')" and "calls w = []" and "logged w = []"
  shows "(\<forall>i < length (calls w'). \<forall>c e. calls w' ! i = (c, Some e) \<longrightarrow>
            (if isPlainMemberAdd c
             then e \<in> set (logged w') \<and> Suc i < length (calls w')
                  \<and> isRemoval (fst (calls w' ! Suc i))
             else Suc i = length (calls w') \<and> res = Some e))
       \<and> (\<forall>e. res = Some e \<longrightarrow>
             (\<exists>c. calls w' \<noteq> [] \<and> last (calls w') = (c, Some e) \<and> \<not> isPlainMemberAdd c)
             \<or> (\<exists>g \<in> set groups. EmailId g = [] \<and> e = GroupHasNoEmailId g))
       \<and> (res = None \<longrightarrow>
             map fst (calls w') = concat (map callsFor groups) @ [DeleteGroupsIfNecessary])"
proof -
  from emits_orderly_reconcileGroups assms(1) obtain t lg where
    "calls w' = calls w @ t" "logged w' = logged w @ lg"
    "orderly (\<lambda>e. \<exists>g \<in> set groups. EmailId g = [] \<and> e = GroupHasNoEmailId g)
        (concat (map callsFor groups) @ [DeleteGroupsIfNecessary]) res t lg"
    by (rule emitsD)
  with assms(2,3)
  have ord: "orderly (\<lambda>e. \<exists>g \<in> set groups. EmailId g = [] \<and> e = GroupHasNoEmailId g)
        (concat (map callsFor groups) @ [DeleteGroupsIfNecessary]) res (calls w') (logged w')"
    by simp
  then have "handled res (logged w') (calls w')" by (simp add: orderly_def)
  then have "\<forall>i < length (calls w'). \<forall>c e. calls w' ! i = (c, Some e) \<longrightarrow>
            (if isPlainMemberAdd c
             then e \<in> set (logged w') \<and> Suc i < length (calls w')
                  \<and> isRemoval (fst (calls w' ! Suc i))
             else Suc i = length (calls w') \<and> res = Some e)"
    by (blast intro: handled_nth)
  with ord show ?thesis by (simp add: orderly_def)
qed

theorem member_add_errors_do_not_abort_witness:
  "calls startWorld = [] \<and> logged startWorld = []
   \<and> fst (reconcileGroups failingMembers [syncedGroup] startWorld) = None
   \<and> calls (snd (reconcileGroups failingMembers [syncedGroup] startWorld)) ! 6
       = (AddOrUpdateGroupMembers memberRole [''p@x.com''], Some (RemoteError ''no such member''))
   \<and> RemoteError ''no such member''
       \<in> set (logged (snd (reconcileGroups failingMembers [syncedGroup] startWorld)))
   \<and> isRemoval (fst (calls (snd (reconcileGroups failingMembers [syncedGroup] startWorld)) ! 7))
   \<and> map fst (calls (snd (reconcileGroups failingMembers [syncedGroup] startWorld)))
       = callsFor syncedGroup @ [DeleteGroupsIfNecessary]
   \<and> calls (snd (reconcileGroups failingSettings [syncedGroup, groupNamed ''b@x.com''] startWorld)) ! 3
       = (UpdateGroupSettings, Some (RemoteError ''forbidden''))
   \<and> length (calls (snd (reconcileGroups failingSettings [syncedGroup, groupNamed ''b@x.com'']
        startWorld))) = 4
   \<and> fst (reconcileGroups failingSettings [syncedGroup, groupNamed ''b@x.com''] startWorld)
       = Some (RemoteError ''forbidden'')"
proof -
  let ?run = "reconcileGroups failingMembers [syncedGroup] startWorld"
  let ?stop = "reconcileGroups failingSettings [syncedGroup, groupNamed ''b@x.com''] startWorld"
  have start: "calls startWorld = []" "logged startWorld = []"
    by (simp_all add: startWorld_def)
  have run: "?run = (fst ?run, snd ?run)" by simp
  have res: "fst ?run = None" by (simp add: run_failingMembers)
  have at6: "calls (snd ?run) ! 6
       = (AddOrUpdateGroupMembers memberRole [''p@x.com''], Some (RemoteError ''no such member''))"
    and len: "6 < length (calls (snd ?run))"
    by (simp_all add: run_failingMembers memberRole_def)
  have plain: "isPlainMemberAdd (AddOrUpdateGroupMembers memberRole [''p@x.com''])"
    by (simp add: isPlainMemberAdd_def)
  from member_add_errors_do_not_abort [OF run start] res at6 len plain
  have cont: "RemoteError ''no such member'' \<in> set (logged (snd ?run))
      \<and> isRemoval (fst (calls (snd ?run) ! Suc 6))"
    and full: "map fst (calls (snd ?run))
      = concat (map callsFor [syncedGroup]) @ [DeleteGroupsIfNecessary]"
    by (metis (no_types, lifting))+
  have stop: "?stop = (fst ?stop, snd ?stop)" by simp
  have at3: "calls (snd ?stop) ! 3 = (UpdateGroupSettings, Some (RemoteError ''forbidden''))"
    and len3: "3 < length (calls (snd ?stop))"
    by (simp_all add: run_failingSettings)
  have fatal: "\<not> isPlainMemberAdd UpdateGroupSettings"
    by (simp add: isPlainMemberAdd_def)
  from member_add_errors_do_not_abort [OF stop start] at3 len3 fatal
  have abort: "Suc 3 = length (calls (snd ?stop)) \<and> fst ?stop = Some (RemoteError ''forbidden'')"
    by (metis (no_types, lifting))
  from start res at6 cont full at3 abort show ?thesis by (simp add: eval_nat_numeral)
qed

text \<open>
  C6. Among the calls made for one group, the only removal call is the one its settings
  ask for: \<^verbatim>\<open>RemoveMembersFromGroup\<close> with owners, managers and members when
  \<^verbatim>\<open>ReconcileMembers\<close> is the string \<^verbatim>\<open>true\<close>, and \<^verbatim>\<open>RemoveOwnerOrManagersFromGroup\<close> with
  owners and managers otherwise. That call is the last call for the group whenever the
  step for the plain members has been reached, and whenever the group is processed
  without error.
\<close>

theorem removal_follows_ReconcileMembers:
  assumes "reconcileGroup svc g w = (res, w')"
  shows "\<exists>t. calls w' = calls w @ t
     \<and> (\<forall>c \<in> fst ` set t. isRemoval c \<longrightarrow>
           c = (if setting g ''ReconcileMembers'' = ''true''
                then RemoveMembersFromGroup (Owners g @ Managers g @ Members g)
                else RemoveOwnerOrManagersFromGroup (Owners g @ Managers g)))
     \<and> (AddOrUpdateGroupMembers memberRole (Members g) \<in> fst ` set t \<or> res = None \<longrightarrow>
           t \<noteq> [] \<and>
           fst (last t) =
             (if setting g ''ReconcileMembers'' = ''true''
              then RemoveMembersFromGroup (Owners g @ Managers g @ Members g)
              else RemoveOwnerOrManagersFromGroup (Owners g @ Managers g)))"
proof -
  from emits_removal_reconcileGroup assms obtain t lg where
    t: "calls w' = calls w @ t" "removalAsConfigured g t"
    by (rule emitsD)
  from emits_orderly_reconcileGroup assms obtain t' lg' where
    t': "calls w' = calls w @ t'"
      "orderly (\<lambda>e. EmailId g = [] \<and> e = GroupHasNoEmailId g) (callsFor g) res t' lg'"
    by (rule emitsD)
  from t(1) t'(1) have "t' = t" by simp
  with t'(2) have full: "res = None \<longrightarrow> map fst t = callsFor g" by (simp add: orderly_def)
  have "res = None \<longrightarrow> t \<noteq> [] \<and> fst (last t) = removalCall g"
  proof (rule impI)
    assume "res = None"
    with full have m: "map fst t = callsFor g" by simp
    then have ne: "t \<noteq> []" by (auto simp: callsFor_def)
    then have "fst (last t) = last (map fst t)" by (simp add: last_map)
    with m ne show "t \<noteq> [] \<and> fst (last t) = removalCall g" by (simp add: callsFor_def)
  qed
  with t show ?thesis
    unfolding removalAsConfigured_def removalCall_def by blast
qed

theorem removal_follows_ReconcileMembers_witness:
  "fst (reconcileGroup okService syncedGroup startWorld) = None
   \<and> fst (last (calls (snd (reconcileGroup okService syncedGroup startWorld))))
       = RemoveMembersFromGroup [''o@x.com'', ''m@x.com'', ''p@x.com'']"
proof -
  let ?run = "reconcileGroup okService syncedGroup startWorld"
  have run: "?run = (fst ?run, snd ?run)" by simp
  have res: "fst ?run = None" by (simp add: run_okService)
  have cfg: "setting syncedGroup ''ReconcileMembers'' = ''true''"
    by (simp add: setting_def syncedGroup_def)
  from removal_follows_ReconcileMembers [OF run] obtain t where
    t: "calls (snd ?run) = calls startWorld @ t"
    and only: "\<forall>c \<in> fst ` set t. isRemoval c \<longrightarrow>
        c = (if setting syncedGroup ''ReconcileMembers'' = ''true''
           then RemoveMembersFromGroup (Owners syncedGroup @ Managers syncedGroup @ Members syncedGroup)
           else RemoveOwnerOrManagersFromGroup (Owners syncedGroup @ Managers syncedGroup))"
    and last: "AddOrUpdateGroupMembers memberRole (Members syncedGroup) \<in> fst ` set t
        \<or> fst ?run = None \<longrightarrow>
        t \<noteq> [] \<and>
        fst (last t) =
          (if setting syncedGroup ''ReconcileMembers'' = ''true''
           then RemoveMembersFromGroup (Owners syncedGroup @ Managers syncedGroup @ Members syncedGroup)
           else RemoveOwnerOrManagersFromGroup (Owners syncedGroup @ Managers syncedGroup))"
    by (elim exE conjE) (rule that)
  from t have "calls (snd ?run) = t" by (simp add: startWorld_def)
  with last res cfg
  have "fst (last (calls (snd ?run)))
      = RemoveMembersFromGroup (Owners syncedGroup @ Managers syncedGroup @ Members syncedGroup)"
    by simp
  with res show ?thesis by (simp add: syncedGroup_def)
qed

end
